theory Spec2Isabelle
  imports Main
begin

section \<open>Python values, dictionaries and exceptions\<close>

text \<open>
  The plugin handles untyped Python values: configuration entries read with
  \<^verbatim>\<open>generator.context.get(...)\<close> may be absent (\<^verbatim>\<open>None\<close>), booleans, numbers or strings.
  A dictionary with string keys is a partial map.
\<close>

datatype pyval = PNone | PBool bool | PInt int | PStr string

type_synonym pydict = "string \<rightharpoonup> pyval"

text \<open>The cache: photo identifier to photo record (itself a dictionary).\<close>

type_synonym photo_mapping = "string \<rightharpoonup> pydict"

text \<open>\<^verbatim>\<open>d.get(k)\<close>: the value, or \<^verbatim>\<open>None\<close> when the key is absent.\<close>

definition dict_get :: "pydict \<Rightarrow> string \<Rightarrow> pyval" where
  "dict_get d k = (case d k of None \<Rightarrow> PNone | Some v \<Rightarrow> v)"

text \<open>Truth value of a Python object in \<^verbatim>\<open>if x:\<close>.\<close>

fun truthy :: "pyval \<Rightarrow> bool" where
  "truthy PNone = False"
| "truthy (PBool b) = b"
| "truthy (PInt i) = (i \<noteq> 0)"
| "truthy (PStr s) = (s \<noteq> [])"

text \<open>
  Exceptions that occur in the plugin. \<open>RemoteError\<close> stands for whatever the Flickr
  client raises (network failure, malformed response).
\<close>

datatype exn = IOError | EOFError | TypeError | UnpicklingError
  | KeyError | IndexError | AttributeError | RemoteError

section \<open>Strings: \<^verbatim>\<open>str.replace\<close> and the tag pattern\<close>

definition startswith :: "string \<Rightarrow> string \<Rightarrow> bool" where
  "startswith s p = (take (length p) s = p)"

text \<open>
  \<^verbatim>\<open>s.replace(old, new)\<close> for a non-empty \<open>old\<close>: every non-overlapping occurrence,
  leftmost first, anywhere in the string.
\<close>

fun replace_ne :: "string \<Rightarrow> string \<Rightarrow> string \<Rightarrow> string" where
  "replace_ne old new [] = []"
| "replace_ne old new (c # cs) =
     (if old \<noteq> [] \<and> startswith (c # cs) old
      then new @ replace_ne old new (drop (length old) (c # cs))
      else c # replace_ne old new cs)"

text \<open>With an empty \<open>old\<close> Python puts \<open>new\<close> before every character and at the end.\<close>

definition replace_str :: "string \<Rightarrow> string \<Rightarrow> string \<Rightarrow> string" where
  "replace_str old new s =
     (if old = [] then new @ concat (map (\<lambda>c. c # new) s) else replace_ne old new s)"

text \<open>\<open>occurs t s\<close>: the literal \<open>t\<close> is a substring of \<open>s\<close>.\<close>

fun occurs :: "string \<Rightarrow> string \<Rightarrow> bool" where
  "occurs t [] = (t = [])"
| "occurs t (c # cs) = (startswith (c # cs) t \<or> occurs t cs)"

definition is_digit :: "char \<Rightarrow> bool" where
  "is_digit c = (c \<in> set ''0123456789'')"

text \<open>The literal text of a tag with identifier \<open>ds\<close>.\<close>

definition tag :: "string \<Rightarrow> string" where
  "tag ds = ''[flickr:id='' @ ds @ '']''"

text \<open>
  One attempt of \<^verbatim>\<open>flickr_regex = re.compile(r'(\[flickr:id\=([0-9]+)\])')\<close> at the start of
  \<open>s\<close>: the literal opening, a greedy non-empty run of digits, the closing bracket. The
  result is the digits and the text after the match.
\<close>

definition match_at :: "string \<Rightarrow> (string \<times> string) option" where
  "match_at s =
     (if startswith s ''[flickr:id='' then
        (let t = drop 11 s; ds = takeWhile is_digit t; r = dropWhile is_digit t
         in case r of
              [] \<Rightarrow> None
            | c # rest \<Rightarrow> if ds \<noteq> [] \<and> c = CHR '']'' then Some (ds, rest) else None)
      else None)"

lemma match_at_shorter: "match_at s = Some (ds, rest) \<Longrightarrow> length rest < length s"
proof -
  assume a: "match_at s = Some (ds, rest)"
  have "length (dropWhile is_digit (drop 11 s)) \<le> length s"
    by (rule order_trans [OF length_dropWhile_le]) simp
  with a show ?thesis
    by (auto simp: match_at_def Let_def split: if_splits list.splits)
qed

text \<open>
  \<^verbatim>\<open>flickr_regex.findall(s)\<close>: the matches from left to right, without overlap; each is
  the pair of groups (the whole tag, the digits).
\<close>

function findall :: "string \<Rightarrow> (string \<times> string) list" where
  "findall [] = []"
| "findall (c # cs) =
     (case match_at (c # cs) of
        None \<Rightarrow> findall cs
      | Some (ds, rest) \<Rightarrow> (tag ds, ds) # findall rest)"
  by pat_completeness auto
termination
  by (relation "measure length") (auto dest: match_at_shorter)

section \<open>The Flickr client\<close>

text \<open>
  \<^verbatim>\<open>api.Photo(id=id)\<close> builds a lazy handle; each attribute read or method call on it queries
  the remote service and either returns a value or raises. A photo is the record of these
  outcomes; a size entry of \<^verbatim>\<open>getSizes()\<close> is a dictionary.
\<close>

record photo =
  title :: "exn + pyval"
  url :: "exn + pyval"
  getMedium640 :: "exn + pyval"
  getMedium :: "exn + pyval"
  getSizes :: "exn + pydict list"

type_synonym flickr_api = "string \<Rightarrow> photo"

text \<open>\<^verbatim>\<open>url.replace(a, '')\<close> on a value: only strings have the method.\<close>

definition strip_schemes :: "pyval \<Rightarrow> exn + string" where
  "strip_schemes v =
     (case v of
        PStr u \<Rightarrow> Inr (replace_str ''https:'' [] (replace_str ''http:'' [] u))
      | _ \<Rightarrow> Inl AttributeError)"

definition url_for_alias :: "photo \<Rightarrow> pyval \<Rightarrow> exn + string" where
  "url_for_alias p alias =
     (case (if alias = PStr ''Medium 640'' then getMedium640 p else getMedium p) of
        Inl e \<Rightarrow> Inl e
      | Inr v \<Rightarrow> strip_schemes v)"

text \<open>
  The comprehension \<^verbatim>\<open>[s for s in sizes if s['label'] == alias]\<close>: a size without a label
  raises \<open>KeyError\<close> when it is reached.
\<close>

fun sizes_with_label :: "pydict list \<Rightarrow> pyval \<Rightarrow> exn + pydict list" where
  "sizes_with_label [] alias = Inr []"
| "sizes_with_label (s # ss) alias =
     (case s ''label'' of
        None \<Rightarrow> Inl KeyError
      | Some l \<Rightarrow>
          (case sizes_with_label ss alias of
             Inl e \<Rightarrow> Inl e
           | Inr found \<Rightarrow> Inr (if l = alias then s # found else found)))"

definition size_for_alias :: "pydict list \<Rightarrow> pyval \<Rightarrow> exn + pydict" where
  "size_for_alias sizes alias0 =
     (let alias = (if alias0 \<noteq> PStr ''Medium 640'' \<and> alias0 \<noteq> PStr ''Medium''
                   then PStr ''Medium'' else alias0)
      in case sizes_with_label sizes alias of
           Inl e \<Rightarrow> Inl e
         | Inr [] \<Rightarrow> Inl IndexError
         | Inr (s # _) \<Rightarrow> Inr s)"

section \<open>The Remote Resolver\<close>

text \<open>The record stored by the \<^verbatim>\<open>except:\<close> branch.\<close>

definition placeholder :: "pydict \<Rightarrow> pydict" where
  "placeholder ctx =
     [''title'' \<mapsto> PStr ''Placeholder'',
      ''raw_url'' \<mapsto> dict_get ctx ''FLICKR_TAG_PLACE_HOLDER_PICT'',
      ''url'' \<mapsto> dict_get ctx ''FLICKR_TAG_PLACE_HOLDER_LINK'']"

text \<open>\<^verbatim>\<open>photo_mapping[id][k] = v\<close>; the entry exists whenever the plugin does this.\<close>

definition set_field :: "photo_mapping \<Rightarrow> string \<Rightarrow> string \<Rightarrow> pyval \<Rightarrow> photo_mapping" where
  "set_field m i k v = (case m i of None \<Rightarrow> m | Some r \<Rightarrow> m(i \<mapsto> r(k \<mapsto> v)))"

text \<open>
  The second half of the \<^verbatim>\<open>try\<close> body, run when dimensions are included. It returns the
  mapping as the statements left it and the exception that ended them, if any.
\<close>

definition add_dimensions ::
  "photo \<Rightarrow> pyval \<Rightarrow> string \<Rightarrow> photo_mapping \<Rightarrow> photo_mapping \<times> exn option" where
  "add_dimensions p size_alias i m =
     (case getSizes p of
        Inl e \<Rightarrow> (m, Some e)
      | Inr sizes \<Rightarrow>
          (case size_for_alias sizes size_alias of
             Inl e \<Rightarrow> (m, Some e)
           | Inr sz \<Rightarrow>
               (case sz ''width'' of
                  None \<Rightarrow> (m, Some KeyError)
                | Some w \<Rightarrow>
                    (case sz ''height'' of
                       None \<Rightarrow> (set_field m i ''width'' w, Some KeyError)
                     | Some h \<Rightarrow>
                         (set_field (set_field m i ''width'' w) i ''height'' h, None)))))"

text \<open>
  The \<^verbatim>\<open>try\<close> body of the fetch loop. The dictionary literal reads the title, the raw URL and
  the URL in this order and is stored only when all three succeeded.
\<close>

definition try_resolve ::
  "photo \<Rightarrow> pyval \<Rightarrow> pyval \<Rightarrow> string \<Rightarrow> photo_mapping \<Rightarrow> photo_mapping \<times> exn option" where
  "try_resolve p include_dimensions size_alias i m =
     (case title p of
        Inl e \<Rightarrow> (m, Some e)
      | Inr t \<Rightarrow>
          (case url_for_alias p size_alias of
             Inl e \<Rightarrow> (m, Some e)
           | Inr raw \<Rightarrow>
               (case url p of
                  Inl e \<Rightarrow> (m, Some e)
                | Inr u \<Rightarrow>
                    (let m1 = m(i \<mapsto> [''title'' \<mapsto> t, ''raw_url'' \<mapsto> PStr raw, ''url'' \<mapsto> u])
                     in if truthy include_dimensions
                        then add_dimensions p size_alias i m1
                        else (m1, None)))))"

text \<open>One iteration of the fetch loop: the \<^verbatim>\<open>try\<close> with its bare \<^verbatim>\<open>except:\<close>.\<close>

definition resolve_one ::
  "pydict \<Rightarrow> photo \<Rightarrow> pyval \<Rightarrow> pyval \<Rightarrow> string \<Rightarrow> photo_mapping \<Rightarrow> photo_mapping" where
  "resolve_one ctx p include_dimensions size_alias i m =
     (case try_resolve p include_dimensions size_alias i m of
        (m', None) \<Rightarrow> m'
      | (m', Some e) \<Rightarrow> m'(i \<mapsto> placeholder ctx))"

section \<open>The cache file\<close>

text \<open>
  The cache is one file written by \<^verbatim>\<open>pickle.dump\<close> and read by \<^verbatim>\<open>pickle.load\<close>. The
  pickle library is outside the plugin: a file is described by what the unpickler makes
  of it. A file that \<^verbatim>\<open>pickle.dump\<close> wrote holds a mapping; an empty or truncated file ends
  the unpickler with \<open>EOFError\<close>; other bytes raise an unpickling error.
\<close>

datatype cache_file = EmptyFile | Pickled photo_mapping | Truncated | Garbage

fun pickle_load :: "cache_file \<Rightarrow> exn + photo_mapping" where
  "pickle_load EmptyFile = Inl EOFError"
| "pickle_load (Pickled m) = Inr m"
| "pickle_load Truncated = Inl EOFError"
| "pickle_load Garbage = Inl UnpicklingError"

text \<open>
  The file system: the files by path, and the paths that cannot be opened for writing.
\<close>

record filesystem =
  files :: "string \<rightharpoonup> cache_file"
  unwritable :: "string \<Rightarrow> bool"

text \<open>
  \<^verbatim>\<open>with open(tmp_file, 'r') as f: pickle.load(f)\<close>. \<^verbatim>\<open>open\<close> wants a string for the
  path and raises \<open>IOError\<close> when the file does not exist.
\<close>

definition load_cache :: "filesystem \<Rightarrow> pyval \<Rightarrow> exn + photo_mapping" where
  "load_cache fs tmp_file =
     (case tmp_file of
        PStr path \<Rightarrow> (case files fs path of None \<Rightarrow> Inl IOError | Some f \<Rightarrow> pickle_load f)
      | _ \<Rightarrow> Inl TypeError)"

text \<open>\<^verbatim>\<open>with open(tmp_file, 'w') as f: pickle.dump(photo_mapping, f)\<close>.\<close>

definition dump_cache :: "filesystem \<Rightarrow> pyval \<Rightarrow> photo_mapping \<Rightarrow> exn + filesystem" where
  "dump_cache fs tmp_file m =
     (case tmp_file of
        PStr path \<Rightarrow>
          if unwritable fs path then Inl IOError
          else Inr (fs\<lparr>files := (files fs)(path \<mapsto> Pickled m)\<rparr>)
      | _ \<Rightarrow> Inl TypeError)"

section \<open>The generator and what a pass leaves behind\<close>

datatype template = Default_template | Host_template pyval

text \<open>
  \<^verbatim>\<open>template.render(context)\<close> belongs to the templating engine. Its result may depend on
  more than the context (a custom template can read shared objects), so the renderer is
  given the number of renderings made before in the pass.
\<close>

type_synonym renderer = "template \<Rightarrow> nat \<Rightarrow> pydict \<Rightarrow> string"

text \<open>
  The generator of the host: the client handle set at initialisation, the context, the
  bodies (\<^verbatim>\<open>_content\<close>) of its articles and pages, and its template lookup.
\<close>

record generator =
  flickr_api_client :: "flickr_api option"
  gcontext :: pydict
  articles :: "string list"
  pages :: "string list"
  get_template :: "pyval \<Rightarrow> exn + template"

datatype log_msg =
    NoApi | ParsingIds string | FoundIds nat string | FetchingAll | FetchingOne string
  | FoundPickled | NoTemplate pyval | Inserting string | NoPhotoInfo

text \<open>
  What a pass does to the outside, in order: log lines, the creation of a photo handle
  for an identifier, the opening of the cache file for writing, a rendering.
\<close>

datatype event =
    LogInfo log_msg | LogError log_msg | ApiPhoto string | OpenWrite pyval
  | RenderCall string

record outcome =
  raised :: "exn option"
  trace :: "event list"
  disk :: filesystem
  final_mapping :: photo_mapping
  bodies :: "string list"

section \<open>The replacement pass\<close>

text \<open>
  The scan loop. \<^verbatim>\<open>photo_ids\<close> is a Python set: adding an identifier already there changes
  nothing. The set is kept as a list without repetition; Python fixes no iteration order.
\<close>

definition scan_into :: "string list \<Rightarrow> string list \<Rightarrow> string list" where
  "scan_into item_list photo_ids =
     fold (\<lambda>item acc. fold (\<lambda>match acc'. List.insert (snd match) acc') (findall item) acc)
       item_list photo_ids"

definition scan_ids :: "string list \<Rightarrow> string list" where
  "scan_ids item_list = scan_into item_list []"

text \<open>
  The \<^verbatim>\<open>try ... except (IOError, EOFError) ... else\<close> around the load: the mapping to start
  from and the identifiers to fetch, or the exception that is not caught.
\<close>

definition load_mapping ::
  "filesystem \<Rightarrow> pyval \<Rightarrow> string list \<Rightarrow> exn + (photo_mapping \<times> string list)" where
  "load_mapping fs tmp_file photo_ids =
     (case load_cache fs tmp_file of
        Inr m \<Rightarrow> Inr (m, filter (\<lambda>i. m i = None) photo_ids)
      | Inl e \<Rightarrow>
          if e = IOError \<or> e = EOFError then Inr (Map.empty, photo_ids) else Inl e)"

text \<open>The fetch loop \<^verbatim>\<open>for id in photo_ids\<close>.\<close>

fun fetch_all ::
  "flickr_api \<Rightarrow> pydict \<Rightarrow> pyval \<Rightarrow> pyval \<Rightarrow> string list \<Rightarrow>
   photo_mapping \<times> event list \<Rightarrow> photo_mapping \<times> event list" where
  "fetch_all api ctx incl alias [] st = st"
| "fetch_all api ctx incl alias (i # ids) (m, ev) =
     fetch_all api ctx incl alias ids
       (resolve_one ctx (api i) incl alias i m, ev @ [LogInfo (FetchingOne i), ApiPhoto i])"

text \<open>\<^verbatim>\<open>if photo_ids: ... else: ...\<close>: fetch and write, or neither.\<close>

definition fetch_and_persist ::
  "flickr_api \<Rightarrow> pydict \<Rightarrow> pyval \<Rightarrow> pyval \<Rightarrow> pyval \<Rightarrow> filesystem \<Rightarrow> photo_mapping \<Rightarrow>
   string list \<Rightarrow> exn option \<times> event list \<times> filesystem \<times> photo_mapping" where
  "fetch_and_persist api ctx tmp_file incl alias fs m0 ids =
     (if ids \<noteq> [] then
        (case fetch_all api ctx incl alias ids (m0, [LogInfo FetchingAll]) of
           (m, ev) \<Rightarrow>
             (case dump_cache fs tmp_file m of
                Inl e \<Rightarrow> (Some e, ev @ [OpenWrite tmp_file], fs, m)
              | Inr fs' \<Rightarrow> (None, ev @ [OpenWrite tmp_file], fs', m)))
      else (None, [LogInfo FoundPickled], fs, m0))"

text \<open>The custom template if one is named and found, the built-in one otherwise.\<close>

definition select_template :: "generator \<Rightarrow> template \<times> event list" where
  "select_template g =
     (let template_name = dict_get (gcontext g) ''FLICKR_TAG_TEMPLATE_NAME''
      in if template_name \<noteq> PNone then
           (case get_template g template_name of
              Inl e \<Rightarrow> (Default_template, [LogError (NoTemplate template_name)])
            | Inr t \<Rightarrow> (t, []))
         else (Default_template, []))"

text \<open>
  The inner substitution loop over the matches found in one body before the loop began.
  The state is the body, the number of renderings so far and the trace.
\<close>

fun subst_matches ::
  "renderer \<Rightarrow> template \<Rightarrow> pydict \<Rightarrow> photo_mapping \<Rightarrow> (string \<times> string) list \<Rightarrow>
   string \<times> nat \<times> event list \<Rightarrow> string \<times> nat \<times> event list" where
  "subst_matches R t ctx m [] st = st"
| "subst_matches R t ctx m (match # ms) (content, n, ev) =
     (case m (snd match) of
        None \<Rightarrow> subst_matches R t ctx m ms (content, n, ev @ [LogError NoPhotoInfo])
      | Some r \<Rightarrow>
          subst_matches R t ctx m ms
            (replace_str (fst match) (R t n (ctx ++ r)) content, Suc n,
             ev @ [RenderCall (snd match)]))"

text \<open>The outer substitution loop over the items.\<close>

fun subst_items ::
  "renderer \<Rightarrow> template \<Rightarrow> pydict \<Rightarrow> photo_mapping \<Rightarrow> string list \<Rightarrow>
   nat \<times> event list \<Rightarrow> string list \<times> nat \<times> event list" where
  "subst_items R t ctx m [] (n, ev) = ([], n, ev)"
| "subst_items R t ctx m (item # items) (n, ev) =
     (case subst_matches R t ctx m (findall item) (item, n, ev) of
        (content, n', ev') \<Rightarrow>
          (case subst_items R t ctx m items (n', ev') of
             (contents, st) \<Rightarrow> (content # contents, st)))"

text \<open>
  The first lines of \<^verbatim>\<open>generic_replace\<close>: any kind other than \<^verbatim>\<open>'article'\<close> and \<^verbatim>\<open>'page'\<close>
  counts as \<^verbatim>\<open>'article'\<close>, and the kind chooses the item list.
\<close>

definition kind_of :: "string \<Rightarrow> string" where
  "kind_of ct_type =
     (if ct_type \<noteq> ''article'' \<and> ct_type \<noteq> ''page'' then ''article'' else ct_type)"

definition item_list_of :: "generator \<Rightarrow> string \<Rightarrow> string list" where
  "item_list_of g ct_type =
     (if kind_of ct_type = ''article'' then articles g else pages g)"

text \<open>\<^verbatim>\<open>tmp_file = generator.context.get('FLICKR_TAG_CACHE_LOCATION')\<close>.\<close>

definition cache_location :: "generator \<Rightarrow> pyval" where
  "cache_location g = dict_get (gcontext g) ''FLICKR_TAG_CACHE_LOCATION''"

text \<open>
  \<^verbatim>\<open>generic_replace(generator, ct_type)\<close>, with the renderer and the file system it works on.
\<close>

definition generic_replace :: "renderer \<Rightarrow> generator \<Rightarrow> filesystem \<Rightarrow> string \<Rightarrow> outcome" where
  "generic_replace R g fs ct_type0 =
     (let ct_type = kind_of ct_type0;
          item_list = item_list_of g ct_type0;
          ctx = gcontext g
      in case flickr_api_client g of
           None \<Rightarrow>
             \<lparr>raised = None, trace = [LogError NoApi], disk = fs,
              final_mapping = Map.empty, bodies = item_list\<rparr>
         | Some api \<Rightarrow>
             (let tmp_file = cache_location g;
                  include_dimensions = dict_get ctx ''FLICKR_TAG_INCLUDE_DIMENSIONS'';
                  size_alias = dict_get ctx ''FLICKR_TAG_IMAGE_SIZE'';
                  photo_ids = scan_ids item_list;
                  ev1 = [LogInfo (ParsingIds ct_type),
                         LogInfo (FoundIds (length photo_ids) ct_type)]
              in case load_mapping fs tmp_file photo_ids of
                   Inl e \<Rightarrow>
                     \<lparr>raised = Some e, trace = ev1, disk = fs,
                      final_mapping = Map.empty, bodies = item_list\<rparr>
                 | Inr (m0, ids) \<Rightarrow>
                     (case fetch_and_persist api ctx tmp_file include_dimensions size_alias
                             fs m0 ids of
                        (Some e, ev2, fs', m) \<Rightarrow>
                          \<lparr>raised = Some e, trace = ev1 @ ev2, disk = fs',
                           final_mapping = m, bodies = item_list\<rparr>
                      | (None, ev2, fs', m) \<Rightarrow>
                          (case select_template g of
                             (t, ev3) \<Rightarrow>
                               (case subst_items R t ctx m item_list
                                       (0, ev1 @ ev2 @ ev3 @ [LogInfo (Inserting ct_type)]) of
                                  (contents, n, ev4) \<Rightarrow>
                                    \<lparr>raised = None, trace = ev4, disk = fs',
                                     final_mapping = m, bodies = contents\<rparr>)))))"

definition replace_article_tags :: "renderer \<Rightarrow> generator \<Rightarrow> filesystem \<Rightarrow> outcome" where
  "replace_article_tags R g fs = generic_replace R g fs ''article''"

definition replace_page_tags :: "renderer \<Rightarrow> generator \<Rightarrow> filesystem \<Rightarrow> outcome" where
  "replace_page_tags R g fs = generic_replace R g fs ''page''"

section \<open>Notions used to state the properties\<close>

text \<open>
  The record that one iteration of the fetch loop leaves for a photo: the iteration run on
  an empty mapping. By \<open>resolve_one_upd\<close> below it is the record left in any mapping.
\<close>

definition photo_record :: "pydict \<Rightarrow> photo \<Rightarrow> pyval \<Rightarrow> pyval \<Rightarrow> pydict" where
  "photo_record ctx p incl alias = the (resolve_one ctx p incl alias [] Map.empty [])"

text \<open>The mapping after the fetch loop has run over \<open>ids\<close> from \<open>m0\<close>.\<close>

definition fetched :: "generator \<Rightarrow> flickr_api \<Rightarrow> photo_mapping \<Rightarrow> string list \<Rightarrow> photo_mapping" where
  "fetched g api m0 ids =
     (\<lambda>j. if j \<in> set ids
          then Some (photo_record (gcontext g) (api j)
                       (dict_get (gcontext g) ''FLICKR_TAG_INCLUDE_DIMENSIONS'')
                       (dict_get (gcontext g) ''FLICKR_TAG_IMAGE_SIZE''))
          else m0 j)"

text \<open>The trace entry of one iteration of the substitution loop.\<close>

definition match_event :: "photo_mapping \<Rightarrow> string \<times> string \<Rightarrow> event" where
  "match_event m match =
     (case m (snd match) of None \<Rightarrow> LogError NoPhotoInfo | Some r \<Rightarrow> RenderCall (snd match))"








text \<open>A small site for the concrete instances: one photo that resolves, one that does not.\<close>

definition example_photo :: photo where
  "example_photo =
     \<lparr>title = Inr (PStr ''Sunset''), url = Inr (PStr ''//flickr/1''),
      getMedium640 = Inr (PStr ''https://img/1_z.jpg''),
      getMedium = Inr (PStr ''https://img/1.jpg''),
      getSizes = Inr [[''label'' \<mapsto> PStr ''Medium'', ''width'' \<mapsto> PInt 500,
                       ''height'' \<mapsto> PInt 375]]\<rparr>"

definition broken_photo :: photo where
  "broken_photo =
     \<lparr>title = Inl RemoteError, url = Inl RemoteError, getMedium640 = Inl RemoteError,
      getMedium = Inl RemoteError, getSizes = Inl RemoteError\<rparr>"

definition example_api :: flickr_api where
  "example_api i = (if i = ''404'' then broken_photo else example_photo)"

definition example_generator :: generator where
  "example_generator =
     \<lparr>flickr_api_client = Some example_api,
      gcontext = [''FLICKR_TAG_CACHE_LOCATION'' \<mapsto> PStr ''/tmp/cache'',
                  ''FLICKR_TAG_IMAGE_SIZE'' \<mapsto> PStr ''Medium 640'',
                  ''FLICKR_TAG_PLACE_HOLDER_PICT'' \<mapsto> PStr ''//img/none.png''],
      articles = [''See [flickr:id=12345] here'', ''[flickr:id=404]''],
      pages = [],
      get_template = (\<lambda>name. Inl KeyError)\<rparr>"

definition example_fs :: filesystem where
  "example_fs = \<lparr>files = Map.empty, unwritable = (\<lambda>path. False)\<rparr>"

definition example_renderer :: renderer where
  "example_renderer t n c = ''<img>''"


section \<open>Facts about \<^verbatim>\<open>str.replace\<close>\<close>

lemma startswith_append: "startswith (p @ s) p"
  by (simp add: startswith_def)

lemma replace_ne_absent: "\<not> occurs old s \<Longrightarrow> replace_ne old new s = s"
  by (induction s) auto

lemma replace_ne_prefix:
  assumes "old \<noteq> []"
  shows "replace_ne old new (old @ s) = new @ replace_ne old new s"
proof -
  from assms obtain a as where old: "old = a # as"
    by (cases old) auto
  have "replace_ne old new ((a # as) @ s)
          = new @ replace_ne old new (drop (length old) ((a # as) @ s))"
    using startswith_append [of old s] by (simp add: old)
  then show ?thesis
    by (simp add: old)
qed

lemma replace_http_https:
  "replace_ne ''http:'' new (''https:'' @ s) = ''https:'' @ replace_ne ''http:'' new s"
  by (simp add: startswith_def)

lemma strip_schemes_http:
  "strip_schemes (PStr (''http:'' @ rest))
     = Inr (replace_str ''https:'' [] (replace_str ''http:'' [] rest))"
  using replace_ne_prefix [of "''http:''" "[]" rest]
  by (simp add: strip_schemes_def replace_str_def)

lemma strip_schemes_https:
  "strip_schemes (PStr (''https:'' @ rest))
     = Inr (replace_str ''https:'' [] (replace_str ''http:'' [] rest))"
  using replace_ne_prefix [of "''https:''" "[]" "replace_ne ''http:'' [] rest"]
    replace_http_https [of "[]" rest]
  by (simp add: strip_schemes_def replace_str_def)

section \<open>The raw image URL\<close>

text \<open>
  C8, as the code has it. \<open>url_for_alias\<close> asks for the Medium 640 variant exactly when the
  alias is \<^verbatim>\<open>'Medium 640'\<close> and for the Medium variant otherwise. For a variant URL that is
  \<^verbatim>\<open>http:\<close> or \<^verbatim>\<open>https:\<close> followed by a remainder, the result is the remainder with every
  occurrence of \<^verbatim>\<open>http:\<close> and then every occurrence of \<^verbatim>\<open>https:\<close> deleted from it; when the
  remainder contains neither text, the result is the remainder unchanged, the
  protocol-relative URL.
\<close>

theorem url_for_alias_spec:
  assumes "(if alias = PStr ''Medium 640'' then getMedium640 p else getMedium p)
             = Inr (PStr (scheme @ rest))"
    and "scheme = ''http:'' \<or> scheme = ''https:''"
  shows "url_for_alias p alias
           = Inr (replace_str ''https:'' [] (replace_str ''http:'' [] rest))
       \<and> (\<not> occurs ''http:'' rest \<and> \<not> occurs ''https:'' rest
            \<longrightarrow> url_for_alias p alias = Inr rest)"
proof -
  have "url_for_alias p alias
          = Inr (replace_str ''https:'' [] (replace_str ''http:'' [] rest))"
    using assms strip_schemes_http [of rest] strip_schemes_https [of rest]
    by (auto simp: url_for_alias_def)
  then show ?thesis
    by (simp add: replace_str_def replace_ne_absent)
qed

theorem url_for_alias_spec_witness:
  "url_for_alias \<lparr>title = Inl RemoteError, url = Inl RemoteError,
       getMedium640 = Inr (PStr ''https://farm9.staticflickr.com/1_z.jpg''),
       getMedium = Inl RemoteError, getSizes = Inl RemoteError\<rparr> (PStr ''Medium 640'')
     = Inr ''//farm9.staticflickr.com/1_z.jpg''"
proof -
  let ?p = "\<lparr>title = Inl RemoteError, url = Inl RemoteError,
       getMedium640 = Inr (PStr ''https://farm9.staticflickr.com/1_z.jpg''),
       getMedium = Inl RemoteError, getSizes = Inl RemoteError\<rparr>"
  have h: "(if PStr ''Medium 640'' = PStr ''Medium 640'' then getMedium640 ?p else getMedium ?p)
             = Inr (PStr (''https:'' @ ''//farm9.staticflickr.com/1_z.jpg''))"
    by simp
  have n: "\<not> occurs ''http:'' ''//farm9.staticflickr.com/1_z.jpg''
         \<and> \<not> occurs ''https:'' ''//farm9.staticflickr.com/1_z.jpg''"
    by (simp add: startswith_def)
  from url_for_alias_spec [OF h] n show ?thesis
    by blast
qed

text \<open>
  C8 as the specification words it fails: the rest of the URL is not always unchanged. A
  variant URL that carries another URL in its query loses the inner \<^verbatim>\<open>http:\<close> too.
\<close>

theorem url_for_alias_inner_scheme_removed:
  "url_for_alias \<lparr>title = Inl RemoteError, url = Inl RemoteError,
       getMedium640 = Inr (PStr ''https://a/?u=http://b''),
       getMedium = Inl RemoteError, getSizes = Inl RemoteError\<rparr> (PStr ''Medium 640'')
     = Inr ''//a/?u=//b''
   \<and> url_for_alias \<lparr>title = Inl RemoteError, url = Inl RemoteError,
       getMedium640 = Inr (PStr ''https://a/?u=http://b''),
       getMedium = Inl RemoteError, getSizes = Inl RemoteError\<rparr> (PStr ''Medium 640'')
     \<noteq> Inr ''//a/?u=http://b''"
  by (simp add: url_for_alias_def strip_schemes_def replace_str_def startswith_def)

section \<open>Store and load\<close>

lemma dump_then_load:
  "dump_cache fs tmp_file m = Inr fs' \<Longrightarrow> load_cache fs' tmp_file = Inr m"
  by (auto simp: dump_cache_def load_cache_def split: pyval.splits if_splits)

text \<open>
  C9. A mapping written to the cache path by the plugin's store is what the plugin's load
  reads back from that path.
\<close>

theorem load_after_dump:
  "dump_cache fs tmp_file m = Inr fs' \<Longrightarrow> load_cache fs' tmp_file = Inr m"
  by (rule dump_then_load)

theorem load_after_dump_witness:
  "load_cache
     (\<lparr>files = [''/tmp/cache'' \<mapsto> Garbage], unwritable = (\<lambda>path. False)\<rparr>
        \<lparr>files := [''/tmp/cache'' \<mapsto> Pickled [''7'' \<mapsto> [''title'' \<mapsto> PStr ''Sunset'']]]\<rparr>)
     (PStr ''/tmp/cache'')
   = Inr [''7'' \<mapsto> [''title'' \<mapsto> PStr ''Sunset'']]"
proof -
  have "dump_cache \<lparr>files = [''/tmp/cache'' \<mapsto> Garbage], unwritable = (\<lambda>path. False)\<rparr>
          (PStr ''/tmp/cache'') [''7'' \<mapsto> [''title'' \<mapsto> PStr ''Sunset'']]
        = Inr (\<lparr>files = [''/tmp/cache'' \<mapsto> Garbage], unwritable = (\<lambda>path. False)\<rparr>
                 \<lparr>files := [''/tmp/cache'' \<mapsto> Pickled [''7'' \<mapsto> [''title'' \<mapsto> PStr ''Sunset'']]]\<rparr>)"
    by (simp add: dump_cache_def)
  then show ?thesis
    by (rule load_after_dump)
qed

section \<open>What one resolution leaves in the mapping\<close>

lemma set_field_upd: "set_field (m(i \<mapsto> r)) i k v = m(i \<mapsto> r(k \<mapsto> v))"
  by (simp add: set_field_def)

lemma add_dimensions_form:
  "\<exists>r' e. \<forall>m i. add_dimensions p alias i (m(i \<mapsto> r)) = (m(i \<mapsto> r'), e)"
proof (cases "getSizes p")
  case (Inl e)
  then have "\<forall>m i. add_dimensions p alias i (m(i \<mapsto> r)) = (m(i \<mapsto> r), Some e)"
    by (simp add: add_dimensions_def)
  then show ?thesis by blast
next
  case sizes: (Inr sizes)
  show ?thesis
  proof (cases "size_for_alias sizes alias")
    case (Inl e)
    with sizes have "\<forall>m i. add_dimensions p alias i (m(i \<mapsto> r)) = (m(i \<mapsto> r), Some e)"
      by (simp add: add_dimensions_def)
    then show ?thesis by blast
  next
    case sz: (Inr sz)
    show ?thesis
    proof (cases "sz ''width''")
      case None
      with sizes sz
      have "\<forall>m i. add_dimensions p alias i (m(i \<mapsto> r)) = (m(i \<mapsto> r), Some KeyError)"
        by (simp add: add_dimensions_def)
      then show ?thesis by blast
    next
      case w: (Some w)
      show ?thesis
      proof (cases "sz ''height''")
        case None
        with sizes sz w
        have "\<forall>m i. add_dimensions p alias i (m(i \<mapsto> r))
                 = (m(i \<mapsto> r(''width'' \<mapsto> w)), Some KeyError)"
          by (simp add: add_dimensions_def set_field_upd)
        then show ?thesis by blast
      next
        case (Some h)
        with sizes sz w
        have "\<forall>m i. add_dimensions p alias i (m(i \<mapsto> r))
                 = (m(i \<mapsto> r(''width'' \<mapsto> w, ''height'' \<mapsto> h)), None)"
          by (simp add: add_dimensions_def set_field_upd)
        then show ?thesis by blast
      qed
    qed
  qed
qed

lemma try_resolve_form:
  "(\<exists>r. \<forall>m i. try_resolve p incl alias i m = (m(i \<mapsto> r), None))
   \<or> (\<exists>e. \<forall>m i. \<exists>m'. try_resolve p incl alias i m = (m', Some e)
                        \<and> (\<forall>x. m'(i \<mapsto> x) = m(i \<mapsto> x)))"
proof (cases "title p")
  case (Inl e)
  then have "\<forall>m i. \<exists>m'. try_resolve p incl alias i m = (m', Some e)
                 \<and> (\<forall>x. m'(i \<mapsto> x) = m(i \<mapsto> x))"
    by (simp add: try_resolve_def)
  then show ?thesis by blast
next
  case t: (Inr t)
  show ?thesis
  proof (cases "url_for_alias p alias")
    case (Inl e)
    with t have "\<forall>m i. \<exists>m'. try_resolve p incl alias i m = (m', Some e)
                 \<and> (\<forall>x. m'(i \<mapsto> x) = m(i \<mapsto> x))"
      by (simp add: try_resolve_def)
    then show ?thesis by blast
  next
    case raw: (Inr raw)
    show ?thesis
    proof (cases "url p")
      case (Inl e)
      with t raw have "\<forall>m i. \<exists>m'. try_resolve p incl alias i m = (m', Some e)
                 \<and> (\<forall>x. m'(i \<mapsto> x) = m(i \<mapsto> x))"
        by (simp add: try_resolve_def)
      then show ?thesis by blast
    next
      case u: (Inr u)
      let ?r = "[''title'' \<mapsto> t, ''raw_url'' \<mapsto> PStr raw, ''url'' \<mapsto> u]"
      show ?thesis
      proof (cases "truthy incl")
        case False
        with t raw u have "\<forall>m i. try_resolve p incl alias i m = (m(i \<mapsto> ?r), None)"
          by (simp add: try_resolve_def)
        then show ?thesis by blast
      next
        case True
        obtain r' e where d: "\<forall>m i. add_dimensions p alias i (m(i \<mapsto> ?r)) = (m(i \<mapsto> r'), e)"
          using add_dimensions_form [of p "alias" ?r] by blast
        with True t raw u have tr: "\<forall>m i. try_resolve p incl alias i m = (m(i \<mapsto> r'), e)"
          by (simp add: try_resolve_def)
        show ?thesis
        proof (cases e)
          case None
          with tr show ?thesis by blast
        next
          case (Some x)
          with tr have "\<forall>m i. \<exists>m'. try_resolve p incl alias i m = (m', Some x)
                 \<and> (\<forall>y. m'(i \<mapsto> y) = m(i \<mapsto> y))"
            by simp
          then show ?thesis by blast
        qed
      qed
    qed
  qed
qed

lemma resolve_one_upd:
  "resolve_one ctx p incl alias i m = m(i \<mapsto> photo_record ctx p incl alias)"
proof -
  from try_resolve_form [of p incl "alias"] show ?thesis
  proof
    assume "\<exists>r. \<forall>m i. try_resolve p incl alias i m = (m(i \<mapsto> r), None)"
    then obtain r where "\<And>m i. try_resolve p incl alias i m = (m(i \<mapsto> r), None)"
      by blast
    then show ?thesis
      by (simp add: resolve_one_def photo_record_def)
  next
    assume "\<exists>e. \<forall>m i. \<exists>m'. try_resolve p incl alias i m = (m', Some e)
                        \<and> (\<forall>x. m'(i \<mapsto> x) = m(i \<mapsto> x))"
    then obtain e where e: "\<And>m i. \<exists>m'. try_resolve p incl alias i m = (m', Some e)
                        \<and> (\<forall>x. m'(i \<mapsto> x) = m(i \<mapsto> x))"
      by blast
    obtain m1 where m1: "try_resolve p incl alias i m = (m1, Some e)"
        "m1(i \<mapsto> placeholder ctx) = m(i \<mapsto> placeholder ctx)"
      using e [of i m] by blast
    obtain m2 where m2: "try_resolve p incl alias [] Map.empty = (m2, Some e)"
        "m2([] \<mapsto> placeholder ctx) = [[] \<mapsto> placeholder ctx]"
      using e [of "[]" Map.empty] by blast
    show ?thesis
      using m1 m2 by (simp add: resolve_one_def photo_record_def)
  qed
qed

lemma placeholder_fields:
  "placeholder ctx ''title'' = Some (PStr ''Placeholder'')"
  "placeholder ctx ''raw_url'' = Some (dict_get ctx ''FLICKR_TAG_PLACE_HOLDER_PICT'')"
  "placeholder ctx ''url'' = Some (dict_get ctx ''FLICKR_TAG_PLACE_HOLDER_LINK'')"
  "dom (placeholder ctx) = {''title'', ''raw_url'', ''url''}"
  by (auto simp: placeholder_def)

lemma try_resolve_raise_upd:
  assumes "try_resolve p incl alias i m = (m', Some e)"
  shows "m'(i \<mapsto> x) = m(i \<mapsto> x)"
  using try_resolve_form [of p incl "alias"] assms
  by (metis Pair_inject option.distinct(1))

lemma photo_record_raise:
  assumes "try_resolve p incl alias i m = (m', Some e)"
  shows "photo_record ctx p incl alias = placeholder ctx"
proof -
  have "resolve_one ctx p incl alias i m = m(i \<mapsto> placeholder ctx)"
    using assms try_resolve_raise_upd [OF assms, of "placeholder ctx"]
    by (simp add: resolve_one_def)
  then have "(m(i \<mapsto> photo_record ctx p incl alias)) i = (m(i \<mapsto> placeholder ctx)) i"
    by (simp only: resolve_one_upd)
  then show ?thesis by simp
qed

text \<open>
  C10. When the title, the raw URL and the URL were read and stored, dimensions are
  included and the dimension lookup then raises (for instance because no size carries the
  selected label), the record just stored for the identifier, with the real title, raw URL
  and URL, is replaced as a whole by the placeholder record.
\<close>

theorem dimension_failure_discards_record:
  assumes "title p = Inr t" and "url_for_alias p alias = Inr raw" and "url p = Inr u"
    and "truthy incl"
    and "add_dimensions p alias i
           (m(i \<mapsto> [''title'' \<mapsto> t, ''raw_url'' \<mapsto> PStr raw, ''url'' \<mapsto> u])) = (m', Some e)"
  shows "try_resolve p incl alias i m = (m', Some e)
       \<and> (\<exists>r. m' i = Some r \<and> r ''title'' = Some t \<and> r ''raw_url'' = Some (PStr raw)
                \<and> r ''url'' = Some u)
       \<and> resolve_one ctx p incl alias i m = m(i \<mapsto> placeholder ctx)
       \<and> resolve_one ctx p incl alias i m i
            = Some [''title'' \<mapsto> PStr ''Placeholder'',
                    ''raw_url'' \<mapsto> dict_get ctx ''FLICKR_TAG_PLACE_HOLDER_PICT'',
                    ''url'' \<mapsto> dict_get ctx ''FLICKR_TAG_PLACE_HOLDER_LINK'']"
proof -
  let ?r = "[''title'' \<mapsto> t, ''raw_url'' \<mapsto> PStr raw, ''url'' \<mapsto> u]"
  have tr: "try_resolve p incl alias i m = (m', Some e)"
    using assms by (simp add: try_resolve_def)
  have "m' = m(i \<mapsto> ?r) \<or> (\<exists>w. m' = m(i \<mapsto> ?r(''width'' \<mapsto> w)))"
    using assms(5)
    by (auto simp: add_dimensions_def set_field_upd split: sum.splits option.splits)
  then have "\<exists>r. m' i = Some r \<and> r ''title'' = Some t \<and> r ''raw_url'' = Some (PStr raw)
                \<and> r ''url'' = Some u"
    by auto
  moreover have "resolve_one ctx p incl alias i m = m(i \<mapsto> placeholder ctx)"
    using tr try_resolve_raise_upd [OF tr, of "placeholder ctx"]
    by (simp add: resolve_one_def)
  ultimately show ?thesis
    using tr by (simp add: placeholder_def)
qed

theorem dimension_failure_discards_record_witness:
  "resolve_one [''FLICKR_TAG_PLACE_HOLDER_PICT'' \<mapsto> PStr ''//img/none.png''] example_photo
     (PBool True) (PStr ''Medium 640'') ''12345'' Map.empty ''12345''
   = Some [''title'' \<mapsto> PStr ''Placeholder'', ''raw_url'' \<mapsto> PStr ''//img/none.png'',
           ''url'' \<mapsto> PNone]"
proof -
  let ?r = "[''title'' \<mapsto> PStr ''Sunset'', ''raw_url'' \<mapsto> PStr ''//img/1_z.jpg'',
             ''url'' \<mapsto> PStr ''//flickr/1'']"
  have a: "title example_photo = Inr (PStr ''Sunset'')"
    by (simp add: example_photo_def)
  have b: "url_for_alias example_photo (PStr ''Medium 640'') = Inr ''//img/1_z.jpg''"
    by (simp add: example_photo_def url_for_alias_def strip_schemes_def replace_str_def
          startswith_def)
  have c: "url example_photo = Inr (PStr ''//flickr/1'')"
    by (simp add: example_photo_def)
  have d: "truthy (PBool True)"
    by simp
  have e: "add_dimensions example_photo (PStr ''Medium 640'') ''12345''
             (Map.empty(''12345'' \<mapsto> ?r))
           = (Map.empty(''12345'' \<mapsto> ?r), Some IndexError)"
    by (simp add: add_dimensions_def example_photo_def size_for_alias_def)
  from dimension_failure_discards_record [OF a b c d e,
      of "[''FLICKR_TAG_PLACE_HOLDER_PICT'' \<mapsto> PStr ''//img/none.png'']"]
  show ?thesis
    by (simp add: dict_get_def placeholder_def)
qed

section \<open>What a pass does\<close>

lemma fetch_all_eq:
  "fetch_all api ctx incl alias ids (m, ev)
     = (fold (\<lambda>i m. m(i \<mapsto> photo_record ctx (api i) incl alias)) ids m,
        ev @ concat (map (\<lambda>i. [LogInfo (FetchingOne i), ApiPhoto i]) ids))"
  by (induction ids arbitrary: m ev) (simp_all add: resolve_one_upd)

lemma fold_upd_apply:
  "fold (\<lambda>i m. m(i \<mapsto> f i)) ids m j = (if j \<in> set ids then Some (f j) else m j)"
  by (induction ids arbitrary: m) auto

lemma subst_matches_trace:
  "subst_matches R t ctx m ms (content, n, ev) = (c', n', ev')
     \<Longrightarrow> ev' = ev @ map (match_event m) ms"
proof (induction ms arbitrary: content n ev)
  case Nil
  then show ?case by simp
next
  case (Cons match ms)
  show ?case
  proof (cases "m (snd match)")
    case None
    with Cons.prems Cons.IH [of content n "ev @ [LogError NoPhotoInfo]"] show ?thesis
      by (simp add: match_event_def)
  next
    case (Some r)
    with Cons.prems
      Cons.IH [of "replace_str (fst match) (R t n (ctx ++ r)) content" "Suc n"
                  "ev @ [RenderCall (snd match)]"]
    show ?thesis
      by (simp add: match_event_def)
  qed
qed

lemma subst_items_trace:
  "subst_items R t ctx m items (n, ev) = (cs, n', ev')
     \<Longrightarrow> ev' = ev @ concat (map (\<lambda>item. map (match_event m) (findall item)) items)
         \<and> length cs = length items"
proof (induction items arbitrary: n ev cs n' ev')
  case Nil
  then show ?case by simp
next
  case (Cons item items)
  obtain c n1 ev1 where a: "subst_matches R t ctx m (findall item) (item, n, ev) = (c, n1, ev1)"
    by (cases "subst_matches R t ctx m (findall item) (item, n, ev)") auto
  obtain cs2 n2 ev2 where b: "subst_items R t ctx m items (n1, ev1) = (cs2, n2, ev2)"
    by (cases "subst_items R t ctx m items (n1, ev1)") auto
  from Cons.prems a b have c: "cs = c # cs2" "n' = n2" "ev' = ev2"
    by simp_all
  from subst_matches_trace [OF a] Cons.IH [OF b] c show ?case
    by simp
qed

lemma load_mapping_loaded:
  assumes "load_cache fs tmp = Inr m0
           \<or> m0 = Map.empty \<and> (load_cache fs tmp = Inl IOError \<or> load_cache fs tmp = Inl EOFError)"
  shows "load_mapping fs tmp ids = Inr (m0, filter (\<lambda>i. m0 i = None) ids)"
  using assms by (auto simp: load_mapping_def)

lemma dump_cache_indep:
  "(case dump_cache fs tmp m of Inl e \<Rightarrow> Some e | Inr fs' \<Rightarrow> None)
     = (case dump_cache fs tmp m' of Inl e \<Rightarrow> Some e | Inr fs' \<Rightarrow> None)"
  by (simp add: dump_cache_def split: pyval.splits)

lemma fetch_and_persist_eq:
  assumes "fetch_and_persist api (gcontext g) tmp
             (dict_get (gcontext g) ''FLICKR_TAG_INCLUDE_DIMENSIONS'')
             (dict_get (gcontext g) ''FLICKR_TAG_IMAGE_SIZE'') fs m0 ids = (r, ev, fs', m)"
  shows "m = fetched g api m0 ids"
    and "r = (if ids = [] then None
              else case dump_cache fs tmp (fetched g api m0 ids) of
                     Inl e \<Rightarrow> Some e | Inr fs2 \<Rightarrow> None)"
    and "fs' = (if ids = [] then fs
              else case dump_cache fs tmp (fetched g api m0 ids) of
                     Inl e \<Rightarrow> fs | Inr fs2 \<Rightarrow> fs2)"
    and "ApiPhoto i \<in> set ev \<longleftrightarrow> i \<in> set ids"
    and "OpenWrite p \<in> set ev \<longleftrightarrow> ids \<noteq> [] \<and> p = tmp"
proof -
  let ?ctx = "gcontext g"
  let ?incl = "dict_get ?ctx ''FLICKR_TAG_INCLUDE_DIMENSIONS''"
  let ?sz_alias = "dict_get ?ctx ''FLICKR_TAG_IMAGE_SIZE''"
  have f: "fetch_all api ?ctx ?incl ?sz_alias ids (m0, [LogInfo FetchingAll])
             = (fetched g api m0 ids,
                LogInfo FetchingAll # concat (map (\<lambda>i. [LogInfo (FetchingOne i), ApiPhoto i]) ids))"
    by (simp add: fetch_all_eq fetched_def fold_upd_apply fun_eq_iff)
  have e: "fetched g api m0 [] = m0"
    by (simp add: fetched_def)
  show "m = fetched g api m0 ids"
    using assms f e by (auto simp: fetch_and_persist_def split: if_splits sum.splits)
  show "r = (if ids = [] then None
              else case dump_cache fs tmp (fetched g api m0 ids) of
                     Inl e \<Rightarrow> Some e | Inr fs2 \<Rightarrow> None)"
    using assms f by (auto simp: fetch_and_persist_def split: if_splits sum.splits)
  show "fs' = (if ids = [] then fs
              else case dump_cache fs tmp (fetched g api m0 ids) of
                     Inl e \<Rightarrow> fs | Inr fs2 \<Rightarrow> fs2)"
    using assms f by (auto simp: fetch_and_persist_def split: if_splits sum.splits)
  show "ApiPhoto i \<in> set ev \<longleftrightarrow> i \<in> set ids"
    using assms f by (auto simp: fetch_and_persist_def split: if_splits sum.splits)
  show "OpenWrite p \<in> set ev \<longleftrightarrow> ids \<noteq> [] \<and> p = tmp"
    using assms f by (auto simp: fetch_and_persist_def split: if_splits sum.splits)
qed

lemma select_template_events:
  "select_template g = (t, ev) \<Longrightarrow> ApiPhoto i \<notin> set ev \<and> OpenWrite p \<notin> set ev"
  by (auto simp: select_template_def Let_def split: if_splits sum.splits)

lemma generic_replace_loaded:
  assumes api: "flickr_api_client g = Some api"
    and lm: "load_mapping fs (cache_location g) (scan_ids (item_list_of g ct)) = Inr (m0, ids)"
  shows "final_mapping (generic_replace R g fs ct) = fetched g api m0 ids"
    and "raised (generic_replace R g fs ct)
           = (if ids = [] then None
              else case dump_cache fs (cache_location g) (fetched g api m0 ids) of
                     Inl e \<Rightarrow> Some e | Inr fs' \<Rightarrow> None)"
    and "disk (generic_replace R g fs ct)
           = (if ids = [] then fs
              else case dump_cache fs (cache_location g) (fetched g api m0 ids) of
                     Inl e \<Rightarrow> fs | Inr fs' \<Rightarrow> fs')"
    and "ApiPhoto i \<in> set (trace (generic_replace R g fs ct)) \<longleftrightarrow> i \<in> set ids"
    and "OpenWrite p \<in> set (trace (generic_replace R g fs ct))
           \<longleftrightarrow> ids \<noteq> [] \<and> p = cache_location g"
proof -
  let ?ctx = "gcontext g"
  let ?incl = "dict_get ?ctx ''FLICKR_TAG_INCLUDE_DIMENSIONS''"
  let ?sz_alias = "dict_get ?ctx ''FLICKR_TAG_IMAGE_SIZE''"
  let ?ev1 = "[LogInfo (ParsingIds (kind_of ct)),
               LogInfo (FoundIds (length (scan_ids (item_list_of g ct))) (kind_of ct))]"
  obtain r ev2 fs' m where fp:
    "fetch_and_persist api ?ctx (cache_location g) ?incl ?sz_alias fs m0 ids = (r, ev2, fs', m)"
    by (cases "fetch_and_persist api ?ctx (cache_location g) ?incl ?sz_alias fs m0 ids") auto
  note fpe = fetch_and_persist_eq [OF fp]
  obtain t ev3 where st: "select_template g = (t, ev3)"
    by (cases "select_template g")
  note ste = select_template_events [OF st]
  obtain cs n ev4 where si:
    "subst_items R t ?ctx m (item_list_of g ct)
       (0, ?ev1 @ ev2 @ ev3 @ [LogInfo (Inserting (kind_of ct))]) = (cs, n, ev4)"
    by (cases "subst_items R t ?ctx m (item_list_of g ct)
       (0, ?ev1 @ ev2 @ ev3 @ [LogInfo (Inserting (kind_of ct))])") auto
  have ev4: "ev4 = (?ev1 @ ev2 @ ev3 @ [LogInfo (Inserting (kind_of ct))])
                @ concat (map (\<lambda>item. map (match_event m) (findall item)) (item_list_of g ct))"
    using subst_items_trace [OF si] by simp
  have out: "generic_replace R g fs ct =
      (case r of
         Some e \<Rightarrow> \<lparr>raised = Some e, trace = ?ev1 @ ev2, disk = fs',
                     final_mapping = m, bodies = item_list_of g ct\<rparr>
       | None \<Rightarrow> \<lparr>raised = None, trace = ev4, disk = fs', final_mapping = m, bodies = cs\<rparr>)"
    using si by (simp add: generic_replace_def Let_def api lm fp st split: option.splits)
  show "final_mapping (generic_replace R g fs ct) = fetched g api m0 ids"
    using fpe(1) by (simp add: out split: option.splits)
  show "raised (generic_replace R g fs ct)
           = (if ids = [] then None
              else case dump_cache fs (cache_location g) (fetched g api m0 ids) of
                     Inl e \<Rightarrow> Some e | Inr fs' \<Rightarrow> None)"
    using fpe(2) by (simp add: out split: option.splits)
  show "disk (generic_replace R g fs ct)
           = (if ids = [] then fs
              else case dump_cache fs (cache_location g) (fetched g api m0 ids) of
                     Inl e \<Rightarrow> fs | Inr fs' \<Rightarrow> fs')"
    using fpe(3) by (simp add: out split: option.splits)
  show "ApiPhoto i \<in> set (trace (generic_replace R g fs ct)) \<longleftrightarrow> i \<in> set ids"
    using fpe(4) [of i] ste
    by (auto simp add: out ev4 match_event_def split: option.splits)
  show "OpenWrite p \<in> set (trace (generic_replace R g fs ct))
           \<longleftrightarrow> ids \<noteq> [] \<and> p = cache_location g"
    using fpe(5) [of p] ste
    by (auto simp add: out ev4 match_event_def split: option.splits)
qed

lemma raised_independent_of_api:
  "raised (generic_replace R (g\<lparr>flickr_api_client := Some api'\<rparr>) fs ct)
     = raised (generic_replace R (g\<lparr>flickr_api_client := Some api\<rparr>) fs ct)"
proof -
  have c: "cache_location (g\<lparr>flickr_api_client := Some x\<rparr>) = cache_location g"
       "item_list_of (g\<lparr>flickr_api_client := Some x\<rparr>) ct = item_list_of g ct" for x
    by (simp_all add: cache_location_def item_list_of_def)
  show ?thesis
  proof (cases "load_mapping fs (cache_location g) (scan_ids (item_list_of g ct))")
    case (Inl e)
    then show ?thesis
      by (simp add: generic_replace_def Let_def c)
  next
    case (Inr a)
    obtain m0 ids where a: "a = (m0, ids)" by (cases a)
    have "raised (generic_replace R (g\<lparr>flickr_api_client := Some x\<rparr>) fs ct)
          = (if ids = [] then None
             else case dump_cache fs (cache_location g) Map.empty of
                    Inl e \<Rightarrow> Some e | Inr fs' \<Rightarrow> None)" for x
      using generic_replace_loaded(2)
          [where g = "g\<lparr>flickr_api_client := Some x\<rparr>" and api = x and fs = fs and ct = ct
             and ?m0.0 = m0 and ids = ids and R = R]
        Inr a dump_cache_indep [of fs "cache_location g" _ Map.empty]
      by (simp add: c)
    then show ?thesis by simp
  qed
qed

lemma findall_example: "findall ''See [flickr:id=12345] here'' = [(''[flickr:id=12345]'', ''12345'')]"
  by (simp add: match_at_def startswith_def is_digit_def tag_def)

lemma findall_example2: "findall ''[flickr:id=404]'' = [(''[flickr:id=404]'', ''404'')]"
  by (simp add: match_at_def startswith_def is_digit_def tag_def)

lemma scan_example:
  "scan_ids (item_list_of example_generator ''article'') = [''404'', ''12345'']"
  by (simp add: scan_ids_def scan_into_def item_list_of_def kind_of_def example_generator_def
        findall_example findall_example2 del: findall.simps)

lemma client_example: "flickr_api_client example_generator = Some example_api"
  by (simp add: example_generator_def)

lemma broken_photo_raises:
  "try_resolve broken_photo incl size_alias i m = (m, Some RemoteError)"
  by (simp add: try_resolve_def broken_photo_def)

lemma cache_location_example: "cache_location example_generator = PStr ''/tmp/cache''"
  by (simp add: cache_location_def example_generator_def dict_get_def)

text \<open>
  C2. Whatever exception ends the \<^verbatim>\<open>try\<close> body of a resolution, the identifier is mapped
  to the placeholder record: title \<^verbatim>\<open>"Placeholder"\<close>, raw URL and URL the configured
  placeholder image and link, and nothing else. The exception does not leave the
  resolution: whether and how a pass raises is the same for every client.
\<close>

theorem resolve_exception_gives_placeholder:
  assumes "try_resolve p incl alias i m = (m', Some e)"
  shows "resolve_one ctx p incl alias i m = m(i \<mapsto> placeholder ctx)
       \<and> placeholder ctx ''title'' = Some (PStr ''Placeholder'')
       \<and> placeholder ctx ''raw_url'' = Some (dict_get ctx ''FLICKR_TAG_PLACE_HOLDER_PICT'')
       \<and> placeholder ctx ''url'' = Some (dict_get ctx ''FLICKR_TAG_PLACE_HOLDER_LINK'')
       \<and> dom (placeholder ctx) = {''title'', ''raw_url'', ''url''}
       \<and> raised (generic_replace R (g\<lparr>flickr_api_client := Some api'\<rparr>) fs ct)
           = raised (generic_replace R (g\<lparr>flickr_api_client := Some api\<rparr>) fs ct)"
  using assms try_resolve_raise_upd [OF assms, of "placeholder ctx"]
    raised_independent_of_api [where R = R and g = g and api' = api' and api = api and fs = fs and ct = ct]
  by (simp add: resolve_one_def placeholder_fields)

theorem resolve_exception_gives_placeholder_witness:
  "resolve_one (gcontext example_generator) broken_photo PNone (PStr ''Medium 640'') ''404''
     Map.empty
   = [''404'' \<mapsto> placeholder (gcontext example_generator)]"
  using resolve_exception_gives_placeholder [OF broken_photo_raises,
      of "gcontext example_generator" PNone "PStr ''Medium 640''" "''404''" Map.empty]
  by simp






text \<open>
  C4. After a pass as in C1, every referenced identifier has an entry; the entry of a
  missing identifier is the record of its own resolution, the placeholder when that
  resolution raised; when the pass ends without exception and something was missing, the
  cache file loads back as the whole final mapping; and the entry of an identifier is the
  same under any client that answers alike for that identifier, whatever happens to the
  others.
\<close>

theorem missing_ids_resolved_and_persisted:
  assumes "flickr_api_client g = Some api"
    and "load_cache fs (cache_location g) = Inr m0
         \<or> m0 = Map.empty \<and> (load_cache fs (cache_location g) = Inl IOError
                              \<or> load_cache fs (cache_location g) = Inl EOFError)"
    and "missing = {i \<in> set (scan_ids (item_list_of g ct)). m0 i = None}"
    and "out = generic_replace R g fs ct"
    and "incl = dict_get (gcontext g) ''FLICKR_TAG_INCLUDE_DIMENSIONS''"
    and "size_alias = dict_get (gcontext g) ''FLICKR_TAG_IMAGE_SIZE''"
  shows "(\<forall>i \<in> set (scan_ids (item_list_of g ct)). final_mapping out i \<noteq> None)
       \<and> (\<forall>i \<in> missing.
             final_mapping out i = Some (photo_record (gcontext g) (api i) incl size_alias))
       \<and> (\<forall>x \<in> missing. \<forall>m m' e.
             try_resolve (api x) incl size_alias x m = (m', Some e)
             \<longrightarrow> final_mapping out x = Some (placeholder (gcontext g)))
       \<and> (missing \<noteq> {} \<and> raised out = None
            \<longrightarrow> load_cache (disk out) (cache_location g) = Inr (final_mapping out))
       \<and> (\<forall>api' y. api' y = api y
            \<longrightarrow> final_mapping (generic_replace R (g\<lparr>flickr_api_client := Some api'\<rparr>) fs ct) y
                  = final_mapping out y)"
proof -
  let ?ids = "filter (\<lambda>i. m0 i = None) (scan_ids (item_list_of g ct))"
  have lm: "load_mapping fs (cache_location g) (scan_ids (item_list_of g ct)) = Inr (m0, ?ids)"
    using assms(2) by (rule load_mapping_loaded)
  note gl = generic_replace_loaded [OF assms(1) lm, where R = R]
  have mi: "missing = set ?ids"
    using assms(3) by auto
  have e: "(missing = {}) = (?ids = [])"
    unfolding mi by (simp only: set_empty)
  have fin: "final_mapping out = fetched g api m0 ?ids"
    using gl(1) assms(4) by simp
  have 1: "\<forall>i \<in> set (scan_ids (item_list_of g ct)). final_mapping out i \<noteq> None"
    by (auto simp: fin fetched_def)
  have 2: "\<forall>i \<in> missing.
             final_mapping out i = Some (photo_record (gcontext g) (api i) incl size_alias)"
    using assms(5,6) by (simp add: fin fetched_def mi)
  have 3: "\<forall>x \<in> missing. \<forall>m m' e.
             try_resolve (api x) incl size_alias x m = (m', Some e)
             \<longrightarrow> final_mapping out x = Some (placeholder (gcontext g))"
    using 2 photo_record_raise by fastforce
  have 4: "missing \<noteq> {} \<and> raised out = None
            \<longrightarrow> load_cache (disk out) (cache_location g) = Inr (final_mapping out)"
  proof
    assume a: "missing \<noteq> {} \<and> raised out = None"
    then have "dump_cache fs (cache_location g) (final_mapping out) = Inr (disk out)"
      using gl(2,3) e assms(4) fin by (auto split: sum.splits)
    then show "load_cache (disk out) (cache_location g) = Inr (final_mapping out)"
      by (rule dump_then_load)
  qed
  have 5: "\<forall>api' y. api' y = api y
            \<longrightarrow> final_mapping (generic_replace R (g\<lparr>flickr_api_client := Some api'\<rparr>) fs ct) y
                  = final_mapping out y"
  proof (intro allI impI)
    fix api' y
    assume y: "api' y = api y"
    let ?g = "g\<lparr>flickr_api_client := Some api'\<rparr>"
    have c: "cache_location ?g = cache_location g" "item_list_of ?g ct = item_list_of g ct"
      by (simp_all add: cache_location_def item_list_of_def)
    have "final_mapping (generic_replace R ?g fs ct) = fetched ?g api' m0 ?ids"
      using generic_replace_loaded(1)
          [where g = ?g and api = api' and fs = fs and ct = ct and ?m0.0 = m0 and ids = ?ids
             and R = R] lm
      by (simp add: c)
    then show "final_mapping (generic_replace R ?g fs ct) y = final_mapping out y"
      using y by (simp add: fin fetched_def)
  qed
  from 1 2 3 4 5 show ?thesis by blast
qed

theorem missing_ids_resolved_and_persisted_witness:
  "final_mapping (generic_replace example_renderer example_generator example_fs ''article'')
     ''404'' = Some (placeholder (gcontext example_generator))
   \<and> load_cache (disk (generic_replace example_renderer example_generator example_fs
                         ''article'')) (PStr ''/tmp/cache'')
     = Inr (final_mapping (generic_replace example_renderer example_generator example_fs
                             ''article''))"
proof -
  let ?out = "generic_replace example_renderer example_generator example_fs ''article''"
  have b: "load_cache example_fs (cache_location example_generator) = Inr Map.empty
         \<or> Map.empty = Map.empty
           \<and> (load_cache example_fs (cache_location example_generator) = Inl IOError
             \<or> load_cache example_fs (cache_location example_generator) = Inl EOFError)"
    by (simp add: cache_location_example load_cache_def example_fs_def)
  have c: "{''12345'', ''404''} = {i \<in> set (scan_ids (item_list_of example_generator ''article'')).
                          Map.empty i = None}"
    by (auto simp add: scan_example)
  have r: "raised ?out = None"
    using generic_replace_loaded(2) [OF client_example,
        where fs = example_fs and ct = "''article''" and ?m0.0 = Map.empty
          and ids = "[''404'', ''12345'']" and R = example_renderer]
    by (simp add: load_mapping_def load_cache_def cache_location_example example_fs_def
          scan_example dump_cache_def)
  have t: "try_resolve (example_api ''404'')
             (dict_get (gcontext example_generator) ''FLICKR_TAG_INCLUDE_DIMENSIONS'')
             (dict_get (gcontext example_generator) ''FLICKR_TAG_IMAGE_SIZE'') ''404'' Map.empty
           = (Map.empty, Some RemoteError)"
    by (simp add: example_api_def broken_photo_raises)
  from missing_ids_resolved_and_persisted [OF client_example b c refl refl refl,
      where R = example_renderer] r t
  show ?thesis
    by (auto simp add: cache_location_example)
qed

section \<open>The tag scanner\<close>

lemma digit_not_bracket:
  "is_digit c \<Longrightarrow> c \<noteq> CHR ''['' \<and> c \<noteq> CHR '']''"
  by (auto simp: is_digit_def)

lemma startswith_split: "startswith s p \<Longrightarrow> s = p @ drop (length p) s"
  using append_take_drop_id [of "length p" s] by (simp add: startswith_def)

lemma length_opening: "length ''[flickr:id='' = 11"
  by simp

lemma match_at_iff:
  "match_at s = Some (ds, rest)
     \<longleftrightarrow> s = tag ds @ rest \<and> ds \<noteq> [] \<and> (\<forall>c \<in> set ds. is_digit c)"
proof
  assume a: "match_at s = Some (ds, rest)"
  then have p: "startswith s ''[flickr:id=''"
    by (simp add: match_at_def split: if_splits)
  then have s: "s = ''[flickr:id='' @ drop 11 s"
    using startswith_split [of s "''[flickr:id=''"] by (simp only: length_opening)
  from a p have ds: "ds = takeWhile is_digit (drop 11 s)" "ds \<noteq> []"
    and r: "dropWhile is_digit (drop 11 s) = CHR '']'' # rest"
    by (auto simp: match_at_def Let_def split: list.splits if_splits)
  have "drop 11 s = ds @ CHR '']'' # rest"
    using takeWhile_dropWhile_id [of is_digit "drop 11 s"] ds(1) r by simp
  with s have "s = tag ds @ rest"
    by (simp add: tag_def)
  moreover have "\<forall>c \<in> set ds. is_digit c"
    using ds(1) by (auto dest: set_takeWhileD)
  ultimately show "s = tag ds @ rest \<and> ds \<noteq> [] \<and> (\<forall>c \<in> set ds. is_digit c)"
    using ds(2) by simp
next
  assume a: "s = tag ds @ rest \<and> ds \<noteq> [] \<and> (\<forall>c \<in> set ds. is_digit c)"
  then have s: "s = ''[flickr:id='' @ ds @ CHR '']'' # rest"
    by (simp add: tag_def)
  have nd: "\<not> is_digit CHR '']''"
    by (simp add: is_digit_def)
  have t: "takeWhile is_digit (ds @ CHR '']'' # rest) = ds"
    using a nd by (simp add: takeWhile_append2)
  have d: "dropWhile is_digit (ds @ CHR '']'' # rest) = CHR '']'' # rest"
    using a nd by (simp add: dropWhile_append2)
  have "startswith s ''[flickr:id=''"
    unfolding s by (rule startswith_append)
  moreover have "drop 11 s = ds @ CHR '']'' # rest"
    unfolding s by simp
  ultimately show "match_at s = Some (ds, rest)"
    using a t d by (simp add: match_at_def)
qed

lemma findall_sound:
  "(w, ds) \<in> set (findall s)
     \<Longrightarrow> w = tag ds \<and> ds \<noteq> [] \<and> (\<forall>c \<in> set ds. is_digit c)
         \<and> (\<exists>pre post. s = pre @ tag ds @ post)"
proof (induction s rule: findall.induct)
  case 1
  then show ?case by simp
next
  case (2 c cs)
  show ?case
  proof (cases "match_at (c # cs)")
    case None
    with 2 have "w = tag ds \<and> ds \<noteq> [] \<and> (\<forall>c \<in> set ds. is_digit c)
         \<and> (\<exists>pre post. cs = pre @ tag ds @ post)"
      by simp
    then obtain pre post where "cs = pre @ tag ds @ post" and
      r: "w = tag ds \<and> ds \<noteq> [] \<and> (\<forall>c \<in> set ds. is_digit c)"
      by blast
    then have "c # cs = (c # pre) @ tag ds @ post"
      by simp
    with r show ?thesis by blast
  next
    case (Some a)
    obtain ds' rest where a: "a = (ds', rest)" by (cases a)
    from Some a have m: "c # cs = tag ds' @ rest" "ds' \<noteq> []" "\<forall>c \<in> set ds'. is_digit c"
      by (simp_all add: match_at_iff)
    from "2.prems" Some a have "(w, ds) = (tag ds', ds') \<or> (w, ds) \<in> set (findall rest)"
      by simp
    then show ?thesis
    proof
      assume "(w, ds) = (tag ds', ds')"
      with m have "w = tag ds \<and> ds \<noteq> [] \<and> (\<forall>c \<in> set ds. is_digit c)
           \<and> c # cs = [] @ tag ds @ rest"
        by simp
      then show ?thesis by blast
    next
      assume "(w, ds) \<in> set (findall rest)"
      with "2.IH"(2) [OF Some a [symmetric]] have "w = tag ds \<and> ds \<noteq> [] \<and> (\<forall>c \<in> set ds. is_digit c)
         \<and> (\<exists>pre post. rest = pre @ tag ds @ post)"
        by simp
      then obtain pre post where "rest = pre @ tag ds @ post" and
        r: "w = tag ds \<and> ds \<noteq> [] \<and> (\<forall>c \<in> set ds. is_digit c)"
        by blast
      then have "c # cs = (tag ds' @ pre) @ tag ds @ post"
        using m(1) by simp
      with r show ?thesis by blast
    qed
  qed
qed

lemma tag_cons: "tag ds = CHR ''['' # ''flickr:id='' @ ds @ '']''"
  by (simp add: tag_def)

lemma tag_tail_no_bracket:
  "\<forall>c \<in> set ds. is_digit c \<Longrightarrow> CHR ''['' \<notin> set (''flickr:id='' @ ds @ '']'')"
  by (auto dest: digit_not_bracket)

lemma tag_no_overlap:
  assumes eq: "tag d1 @ rest = pre @ tag d2 @ post"
    and d1: "\<forall>c \<in> set d1. is_digit c"
  shows "pre = [] \<or> (\<exists>pre'. pre = tag d1 @ pre' \<and> rest = pre' @ tag d2 @ post)"
proof -
  from eq obtain us where
    "tag d1 = pre @ us \<and> us @ rest = tag d2 @ post \<or> tag d1 @ us = pre \<and> rest = us @ tag d2 @ post"
    by (auto simp: append_eq_append_conv2)
  then show ?thesis
  proof
    assume a: "tag d1 = pre @ us \<and> us @ rest = tag d2 @ post"
    show ?thesis
    proof (cases us)
      case Nil
      with a show ?thesis by simp
    next
      case (Cons u us')
      with a have u: "u = CHR ''[''"
        by (simp add: tag_cons)
      show ?thesis
      proof (cases pre)
        case Nil
        then show ?thesis by simp
      next
        case (Cons b pre')
        with a have "''flickr:id='' @ d1 @ '']'' = pre' @ us"
          by (simp add: tag_cons)
        then have "set us \<subseteq> set (''flickr:id='' @ d1 @ '']'')"
          by (metis set_append Un_upper2)
        with u \<open>us = u # us'\<close> tag_tail_no_bracket [OF d1] show ?thesis
          by auto
      qed
    qed
  next
    assume "tag d1 @ us = pre \<and> rest = us @ tag d2 @ post"
    then show ?thesis by auto
  qed
qed

lemma tag_prefix_unique:
  assumes "tag d1 @ r1 = tag d2 @ r2"
    and "d1 \<noteq> []" "\<forall>c \<in> set d1. is_digit c" "d2 \<noteq> []" "\<forall>c \<in> set d2. is_digit c"
  shows "d1 = d2 \<and> r1 = r2"
proof -
  have a: "match_at (tag d1 @ r1) = Some (d1, r1)"
    using assms(2,3) by (simp add: match_at_iff)
  have b: "match_at (tag d2 @ r2) = Some (d2, r2)"
    using assms(4,5) by (simp add: match_at_iff)
  from a have "match_at (tag d2 @ r2) = Some (d1, r1)"
    by (simp only: assms(1))
  with b show ?thesis by simp
qed

lemma findall_complete:
  assumes ne: "ds \<noteq> []" and dg: "\<forall>c \<in> set ds. is_digit c"
  shows "s = pre @ tag ds @ post \<Longrightarrow> (tag ds, ds) \<in> set (findall s)"
proof (induction s arbitrary: pre rule: findall.induct)
  case 1
  then show ?case by (simp add: tag_cons)
next
  case (2 c cs)
  show ?case
  proof (cases "match_at (c # cs)")
    case None
    have "pre \<noteq> []"
    proof
      assume "pre = []"
      with "2.prems" have "match_at (c # cs) = Some (ds, post)"
        using ne dg by (simp add: match_at_iff)
      with None show False by simp
    qed
    then obtain pre' where "pre = c # pre'" "cs = pre' @ tag ds @ post"
      using "2.prems" by (cases pre) auto
    with "2.IH"(1) [OF None] None show ?thesis
      by simp
  next
    case (Some a)
    obtain ds' rest where a: "a = (ds', rest)" by (cases a)
    from Some a have m: "c # cs = tag ds' @ rest" "ds' \<noteq> []" "\<forall>c \<in> set ds'. is_digit c"
      by (simp_all add: match_at_iff)
    from tag_no_overlap [of ds' rest pre ds post] m "2.prems"
    have "pre = [] \<or> (\<exists>pre'. pre = tag ds' @ pre' \<and> rest = pre' @ tag ds @ post)"
      by simp
    then show ?thesis
    proof
      assume "pre = []"
      with m "2.prems" have "tag ds' @ rest = tag ds @ post"
        by simp
      from tag_prefix_unique [OF this m(2,3) ne dg] Some a show ?thesis
        by simp
    next
      assume "\<exists>pre'. pre = tag ds' @ pre' \<and> rest = pre' @ tag ds @ post"
      then obtain pre' where "rest = pre' @ tag ds @ post" by blast
      from "2.IH"(2) [OF Some a [symmetric] this] Some a show ?thesis
        by simp
    qed
  qed
qed

lemma findall_snd_iff:
  "ds \<in> snd ` set (findall s)
     \<longleftrightarrow> ds \<noteq> [] \<and> (\<forall>c \<in> set ds. is_digit c) \<and> (\<exists>pre post. s = pre @ tag ds @ post)"
proof
  assume "ds \<in> snd ` set (findall s)"
  then obtain w where "(w, ds) \<in> set (findall s)" by auto
  from findall_sound [OF this]
  show "ds \<noteq> [] \<and> (\<forall>c \<in> set ds. is_digit c) \<and> (\<exists>pre post. s = pre @ tag ds @ post)"
    by blast
next
  assume "ds \<noteq> [] \<and> (\<forall>c \<in> set ds. is_digit c) \<and> (\<exists>pre post. s = pre @ tag ds @ post)"
  then have "(tag ds, ds) \<in> set (findall s)"
    using findall_complete by blast
  then show "ds \<in> snd ` set (findall s)"
    by force
qed

lemma set_scan_into:
  "set (scan_into items acc) = set acc \<union> (\<Union>item \<in> set items. snd ` set (findall item))"
proof -
  have inner: "set (fold (\<lambda>match acc'. List.insert (snd match) acc') ms acc)
                 = set acc \<union> snd ` set ms" for ms and acc :: "string list"
    by (induction ms arbitrary: acc) auto
  show ?thesis
    unfolding scan_into_def
    by (induction items arbitrary: acc) (auto simp: inner)
qed

lemma distinct_scan_into: "distinct acc \<Longrightarrow> distinct (scan_into items acc)"
proof -
  have inner: "distinct acc \<Longrightarrow> distinct (fold (\<lambda>match acc'. List.insert (snd match) acc') ms acc)"
    for ms and acc :: "string list"
    by (induction ms arbitrary: acc) auto
  show "distinct acc \<Longrightarrow> distinct (scan_into items acc)"
    unfolding scan_into_def
    by (induction items arbitrary: acc) (auto simp: inner)
qed

lemma scan_into_absorb:
  "(\<Union>item \<in> set items. snd ` set (findall item)) \<subseteq> set acc \<Longrightarrow> scan_into items acc = acc"
proof -
  have inner: "snd ` set ms \<subseteq> set acc
         \<Longrightarrow> fold (\<lambda>match acc'. List.insert (snd match) acc') ms acc = acc"
    for ms and acc :: "string list"
    by (induction ms arbitrary: acc) auto
  show "(\<Union>item \<in> set items. snd ` set (findall item)) \<subseteq> set acc \<Longrightarrow> scan_into items acc = acc"
    unfolding scan_into_def
    by (induction items arbitrary: acc) (auto simp: inner)
qed

text \<open>
  C7. The scanner returns exactly the identifiers \<open>ds\<close>, non-empty runs of digits, whose
  tag \<^verbatim>\<open>[flickr:id=ds]\<close> occurs in some body, each once. The result depends on the
  bodies only as a set; scanning the same bodies again, into the result or after
  themselves, yields the same identifiers. The scanner is a function of the bodies and
  returns nothing but the identifiers: it has no way to change an item.
\<close>

theorem scan_ids_spec:
  "set (scan_ids items)
     = {ds. ds \<noteq> [] \<and> (\<forall>c \<in> set ds. is_digit c)
            \<and> (\<exists>item \<in> set items. \<exists>pre post. item = pre @ tag ds @ post)}
   \<and> distinct (scan_ids items)
   \<and> scan_into items (scan_ids items) = scan_ids items
   \<and> set (scan_ids (items @ items)) = set (scan_ids items)
   \<and> (set items = set items' \<longrightarrow> set (scan_ids items) = set (scan_ids items'))"
proof -
  have 1: "set (scan_ids items)
     = {ds. ds \<noteq> [] \<and> (\<forall>c \<in> set ds. is_digit c)
            \<and> (\<exists>item \<in> set items. \<exists>pre post. item = pre @ tag ds @ post)}"
  proof (rule set_eqI)
    fix ds
    have "ds \<in> set (scan_ids items)
            \<longleftrightarrow> (\<exists>item \<in> set items. ds \<in> snd ` set (findall item))"
      by (simp add: scan_ids_def set_scan_into)
    also have "\<dots> \<longleftrightarrow> (\<exists>item \<in> set items. ds \<noteq> [] \<and> (\<forall>c \<in> set ds. is_digit c)
                        \<and> (\<exists>pre post. item = pre @ tag ds @ post))"
      by (simp only: findall_snd_iff)
    also have "\<dots> \<longleftrightarrow> ds \<in> {ds. ds \<noteq> [] \<and> (\<forall>c \<in> set ds. is_digit c)
            \<and> (\<exists>item \<in> set items. \<exists>pre post. item = pre @ tag ds @ post)}"
      by blast
    finally show "ds \<in> set (scan_ids items)
            \<longleftrightarrow> ds \<in> {ds. ds \<noteq> [] \<and> (\<forall>c \<in> set ds. is_digit c)
            \<and> (\<exists>item \<in> set items. \<exists>pre post. item = pre @ tag ds @ post)}" .
  qed
  have 2: "distinct (scan_ids items)"
    by (simp add: scan_ids_def distinct_scan_into)
  have 3: "scan_into items (scan_ids items) = scan_ids items"
    by (rule scan_into_absorb) (simp add: scan_ids_def set_scan_into)
  have 4: "set (scan_ids (items @ items)) = set (scan_ids items)"
    by (simp add: scan_ids_def set_scan_into)
  have 5: "set items = set items' \<longrightarrow> set (scan_ids items) = set (scan_ids items')"
    by (simp add: scan_ids_def set_scan_into)
  from 1 2 3 4 5 show ?thesis by blast
qed

theorem scan_ids_spec_witness:
  "''12345'' \<in> set (scan_ids [''See [flickr:id=12345] here'', ''[flickr:id=404]''])
   \<and> distinct (scan_ids [''See [flickr:id=12345] here'', ''[flickr:id=404]''])"
proof -
  define d where "d = ''12345''"
  define b where "b = ''See [flickr:id=12345] here''"
  define L where "L = [b, ''[flickr:id=404]'']"
  have eq: "b = ''See '' @ tag d @ '' here''"
    by (simp add: b_def d_def tag_def)
  have mem: "b \<in> set L"
    by (simp add: L_def)
  have dg: "d \<noteq> [] \<and> (\<forall>c \<in> set d. is_digit c)"
    by (simp add: d_def is_digit_def)
  from mem eq have ex: "\<exists>item \<in> set L. \<exists>pre post. item = pre @ tag d @ post"
    by blast
  have s: "set (scan_ids L)
             = {ds. ds \<noteq> [] \<and> (\<forall>c \<in> set ds. is_digit c)
                    \<and> (\<exists>item \<in> set L. \<exists>pre post. item = pre @ tag ds @ post)}"
    and di: "distinct (scan_ids L)"
    using scan_ids_spec [of L "[]"] by (rule conjunct1, rule conjunct2 [THEN conjunct1])
  from dg ex have "d \<in> set (scan_ids L)"
    unfolding s by simp
  with di show ?thesis
    by (simp only: L_def b_def d_def)
qed

section \<open>The substitution loop\<close>


























end
